theory Spec2Isabelle
  imports Main "HOL-Library.Sublist"
begin

section \<open>Python strings and the built-ins the decoders call\<close>

text \<open>
  A Python \<open>str\<close> is modelled as a \<open>string\<close>: a list of \<open>char\<close>, each \<open>char\<close> read as
  the code point of the same number (U+0000 to U+00FF). Every character the source names
  (letters, digits, \<open>-\<close>, the space, \<open>_\<close>, \<open>+\<close>, \<open>$\<close>) is in this range. \<open>None\<close> is the
  \<open>None\<close> of \<open>option\<close>.
\<close>

datatype error = IndexError | KeyError | ValueError

text \<open>The character class \<open>[A-Za-z0-9]\<close> of the regular expression in line 17.\<close>

definition is_alnum :: "char \<Rightarrow> bool" where
  "is_alnum c =
     (let n = (of_char c :: nat)
      in (65 \<le> n \<and> n \<le> 90) \<or> (97 \<le> n \<and> n \<le> 122) \<or> (48 \<le> n \<and> n \<le> 57))"

text \<open>
  \<open>re.sub("[...]+", repl, s)\<close> for a one-character class \<open>cls\<close>: scanning from the left,
  every maximal run of characters of the class is one match (\<open>+\<close> is greedy) and is replaced
  by \<open>repl\<close>; the other characters are copied.
\<close>

function re_sub_runs :: "(char \<Rightarrow> bool) \<Rightarrow> string \<Rightarrow> string \<Rightarrow> string" where
  "re_sub_runs cls repl [] = []"
| "re_sub_runs cls repl (c # cs) =
     (if cls c then repl @ re_sub_runs cls repl (dropWhile cls cs)
      else c # re_sub_runs cls repl cs)"
  by pat_completeness auto
termination
  by (relation "measure (\<lambda>(cls, repl, s). length s)")
     (auto simp: length_dropWhile_le less_Suc_eq_le)

text \<open>\<open>sub in s\<close> on strings: \<open>sub\<close> occurs in \<open>s\<close> as a contiguous substring.\<close>

fun py_in :: "string \<Rightarrow> string \<Rightarrow> bool" where
  "py_in sub [] = (sub = [])"
| "py_in sub (c # cs) = (prefix sub (c # cs) \<or> py_in sub cs)"

text \<open>
  \<open>s.split(sep)\<close> with a separator given: the leftmost occurrence of \<open>sep\<close> ends the first
  piece and the search goes on behind it; empty pieces are kept; the result is never empty.
  (Python raises on an empty separator; both separators of the source are literals.)
\<close>

function py_split :: "string \<Rightarrow> string \<Rightarrow> string list" where
  "py_split sep [] = [[]]"
| "py_split sep (c # cs) =
     (if sep \<noteq> [] \<and> prefix sep (c # cs)
      then [] # py_split sep (drop (length sep) (c # cs))
      else (case py_split sep cs of
              [] \<Rightarrow> [[c]]
            | p # ps \<Rightarrow> (c # p) # ps))"
  by pat_completeness auto
termination
  by (relation "measure (\<lambda>(sep, s). length s)") auto

text \<open>\<open>s.replace(a, b)\<close> for one-character \<open>a\<close> and \<open>b\<close>.\<close>

definition py_replace :: "char \<Rightarrow> char \<Rightarrow> string \<Rightarrow> string" where
  "py_replace a b s = map (\<lambda>c. if c = a then b else c) s"

text \<open>
  \<open>str.isspace\<close> on one character, for code points below 256: TAB to CR, FS to US, the
  space, NEL (0x85) and the no-break space (0xA0). \<open>s.strip()\<close> removes these at both ends.
\<close>

definition is_space :: "char \<Rightarrow> bool" where
  "is_space c =
     (let n = (of_char c :: nat)
      in (9 \<le> n \<and> n \<le> 13) \<or> (28 \<le> n \<and> n \<le> 32) \<or> n = 133 \<or> n = 160)"

definition py_strip :: "string \<Rightarrow> string" where
  "py_strip s = rev (dropWhile is_space (rev (dropWhile is_space s)))"

text \<open>
  \<open>int(s)\<close> on a string, base 10. CPython skips white space at both ends, takes one sign,
  then wants digits, with single underscores allowed between two digits, up to the end of
  the string; anything else is a \<open>ValueError\<close>. The white space \<open>int\<close> skips is TAB to CR
  and the space, and NEL and the no-break space (which it first turns into spaces); FS to
  US are not skipped, unlike in \<open>strip\<close>. Below code point 256 the decimal digits are
  \<open>0\<close> to \<open>9\<close>. Interpreters with a limit on the digits of a conversion
  (\<open>sys.get_int_max_str_digits()\<close>, 4300 unless configured, 0 for no limit) raise
  \<open>ValueError\<close> on more digits than the limit: the limit is the parameter \<open>lim\<close>.
\<close>

definition is_digit :: "char \<Rightarrow> bool" where
  "is_digit c = (let n = (of_char c :: nat) in 48 \<le> n \<and> n \<le> 57)"

definition int_space :: "char \<Rightarrow> bool" where
  "int_space c =
     (let n = (of_char c :: nat) in (9 \<le> n \<and> n \<le> 13) \<or> n = 32 \<or> n = 133 \<or> n = 160)"

text \<open>
  The run of digits and underscores: the digits of the run (underscores dropped) and the
  rest of the string behind it. The flag says that the character before was an underscore.
\<close>

fun scan_digits :: "bool \<Rightarrow> string \<Rightarrow> error + (string \<times> string)" where
  "scan_digits prev_us [] = (if prev_us then Inl ValueError else Inr ([], []))"
| "scan_digits prev_us (c # cs) =
     (if c = CHR ''_'' then (if prev_us then Inl ValueError else scan_digits True cs)
      else if is_digit c then
        (case scan_digits False cs of
           Inl e \<Rightarrow> Inl e
         | Inr (ds, rest) \<Rightarrow> Inr (c # ds, rest))
      else if prev_us then Inl ValueError else Inr ([], c # cs))"

definition digits_value :: "string \<Rightarrow> nat" where
  "digits_value ds = foldl (\<lambda>a c. 10 * a + (of_char c - 48)) 0 ds"

definition py_int :: "nat \<Rightarrow> string \<Rightarrow> error + int" where
  "py_int lim s =
     (let s1 = dropWhile int_space s;
          (neg, s2) =
            (case s1 of
               [] \<Rightarrow> (False, [])
             | c # cs \<Rightarrow>
                 if c = CHR ''+'' then (False, cs)
                 else if c = CHR ''-'' then (True, cs)
                 else (False, s1))
      in if (case s2 of [] \<Rightarrow> False | c # _ \<Rightarrow> c = CHR ''_'') then Inl ValueError
         else
           (case scan_digits False s2 of
              Inl e \<Rightarrow> Inl e
            | Inr (ds, rest) \<Rightarrow>
                if ds = [] then Inl ValueError
                else if 0 < lim \<and> lim < length ds then Inl ValueError
                else if dropWhile int_space rest \<noteq> [] then Inl ValueError
                else Inr (if neg then - int (digits_value ds) else int (digits_value ds))))"

text \<open>\<open>xs.pop(0)\<close>: the first element and the rest; \<open>IndexError\<close> on the empty list.\<close>

fun pop0 :: "'a list \<Rightarrow> error + ('a \<times> 'a list)" where
  "pop0 [] = Inl IndexError"
| "pop0 (x # xs) = Inr (x, xs)"

section \<open>Phone numbers\<close>

definition process_campsites_phone_number :: "string option \<Rightarrow> string option" where
  "process_campsites_phone_number phone_number_str =
     (case phone_number_str of
        None \<Rightarrow> None
      | Some s \<Rightarrow> Some (re_sub_runs (\<lambda>c. \<not> is_alnum c) [] s))"

section \<open>Season dates\<close>

record dates_dict =
  month_open :: "int option"
  month_close :: "int option"

text \<open>The dictionary of lines 44 to 57, in insertion order, which is the order of its keys.\<close>

definition dates_map :: "(string \<times> int) list" where
  "dates_map =
     [(''jan'', 1), (''feb'', 2), (''mar'', 3), (''apr'', 4), (''may'', 5), (''jun'', 6),
      (''jul'', 7), (''aug'', 8), (''sep'', 9), (''oct'', 10), (''nov'', 11), (''dec'', 12)]"

definition dates_keys :: "string list" where
  "dates_keys = map fst dates_map"

text \<open>Line 60: \<open>date_open_str.replace("-", " ").split(" ")\<close>.\<close>

definition date_open_arr :: "string \<Rightarrow> string list" where
  "date_open_arr date_open_str = py_split '' '' (py_replace CHR ''-'' CHR '' '' date_open_str)"

text \<open>
  The loops of lines 63 to 64 and 74 to 75, which are the same: while the current string is
  not a key of \<open>dates_map\<close> and the array is not empty, pop the next string. The pop is
  guarded by the loop's test, so it is the pattern \<open>x # xs\<close>. The result is the string the
  loop stops on and what is left of the array.
\<close>

fun pop_until_month :: "string \<Rightarrow> string list \<Rightarrow> string \<times> string list" where
  "pop_until_month cur [] = (cur, [])"
| "pop_until_month cur (x # xs) =
     (if cur \<notin> set dates_keys then pop_until_month x xs else (cur, x # xs))"

text \<open>
  Lines 65 to 67 and 76 to 78: \<open>month\<close> runs over the keys in order and
  \<open>dates_map[month]\<close> is the number paired with it; a later assignment overwrites an
  earlier one.
\<close>

definition set_month_open :: "string \<Rightarrow> dates_dict \<Rightarrow> dates_dict" where
  "set_month_open open_str =
     fold (\<lambda>(month, v) d. if month = open_str then d\<lparr>month_open := Some v\<rparr> else d) dates_map"

definition set_month_close :: "string \<Rightarrow> dates_dict \<Rightarrow> dates_dict" where
  "set_month_close close_str =
     fold (\<lambda>(month, v) d. if py_in month close_str then d\<lparr>month_close := Some v\<rparr> else d)
       dates_map"

definition process_campsites_dates :: "string option \<Rightarrow> error + dates_dict" where
  "process_campsites_dates date_open_str =
     (let dates_dict = \<lparr>month_open = None, month_close = None\<rparr> in
      case date_open_str of
        None \<Rightarrow> Inr dates_dict
      | Some s \<Rightarrow>
          if s = ''all year''
          then Inr (dates_dict\<lparr>month_open := Some 1, month_close := Some 12\<rparr>)
          else
            (case pop0 (date_open_arr s) of
               Inl e \<Rightarrow> Inl e
             | Inr (open_str0, arr0) \<Rightarrow>
                 (let (open_str, arr1) = pop_until_month open_str0 arr0;
                      dates_dict = set_month_open open_str dates_dict
                  in if length arr1 = 0 then Inr dates_dict
                     else
                       (case pop0 arr1 of
                          Inl e \<Rightarrow> Inl e
                        | Inr (close_str0, arr2) \<Rightarrow>
                            (let (close_str, arr3) = pop_until_month close_str0 arr2
                             in Inr (set_month_close close_str dates_dict))))))"

text \<open>
  Reading aids for the statements about the scans. \<open>is_month\<close>: the token is a key of
  \<open>dates_map\<close> (exact match). \<open>months_in\<close>: the numbers of the months whose abbreviation
  occurs in the token, in the order of the keys. \<open>close_token\<close>: the token the second loop
  stops on, given the non-empty list of tokens left after the open month.
\<close>

definition is_month :: "string \<Rightarrow> bool" where
  "is_month t = (t \<in> set dates_keys)"

definition months_in :: "string \<Rightarrow> int list" where
  "months_in t = map snd (filter (\<lambda>(month, v). py_in month t) dates_map)"

definition close_token :: "string list \<Rightarrow> string" where
  "close_token rest = (case find is_month rest of Some t \<Rightarrow> t | None \<Rightarrow> last rest)"

text \<open>
  Following the spec's words for the second scan, to compare with the code: the first
  remaining token that contains a month abbreviation determines \<open>month_close\<close>.
\<close>

definition close_by_containment :: "string list \<Rightarrow> int option" where
  "close_by_containment rest =
     (case find (\<lambda>t. months_in t \<noteq> []) rest of
        None \<Rightarrow> None
      | Some t \<Rightarrow> Some (last (months_in t)))"

section \<open>Country\<close>

definition canadian_provinces :: "string list" where
  "canadian_provinces =
     [''AB'', ''BC'', ''MB'', ''NB'', ''NL'', ''NT'', ''NS'', ''NU'', ''ON'', ''PE'', ''QC'',
      ''SK'', ''YT'']"

definition process_campsites_country :: "string \<Rightarrow> string" where
  "process_campsites_country state_str =
     (if state_str \<in> set canadian_provinces then ''CAN'' else ''USA'')"

section \<open>Amenities\<close>

text \<open>
  The dictionary the decoder returns. Every key of lines 129 to 142 is a field, \<open>None\<close>
  for Python's \<open>None\<close>. The key \<open>has_rv_hookup\<close> is not in the initial dictionary and is
  added by a hookup code: its field is \<open>None\<close> while the key is absent (once present its
  value is \<open>True\<close> or \<open>False\<close>).
\<close>

record amenity_dict =
  has_water_hookup :: "bool option"
  has_electric_hookup :: "bool option"
  has_sewer_hookup :: "bool option"
  has_sanitary_dump :: "bool option"
  max_rv_length :: "int option"
  has_toilets :: "bool option"
  toilet_type :: "string option"
  has_drinking_water :: "bool option"
  has_showers :: "bool option"
  accepts_reservations :: "bool option"
  accepts_pets :: "bool option"
  low_no_fee :: "bool option"
  has_rv_hookup :: "bool option"

definition amenity_dict0 :: amenity_dict where
  "amenity_dict0 =
     \<lparr>has_water_hookup = None, has_electric_hookup = None, has_sewer_hookup = None,
      has_sanitary_dump = None, max_rv_length = None, has_toilets = None, toilet_type = None,
      has_drinking_water = None, has_showers = None, accepts_reservations = None,
      accepts_pets = None, low_no_fee = None, has_rv_hookup = None\<rparr>"

text \<open>
  The body of the loop of line 150 is nine \<open>if\<close> statements in a row, one function each
  here, named by the source's comments. \<open>True if c else False\<close> is \<open>c\<close>.
\<close>

definition rule_hookups :: "string \<Rightarrow> amenity_dict \<Rightarrow> amenity_dict" where
  "rule_hookups amenity_code d =
     (if amenity_code \<in> set [''NH'', ''E'', ''WE'', ''WES'']
      then
        (let d = d\<lparr>has_electric_hookup := Some (py_in ''E'' amenity_code)\<rparr>;
             d = d\<lparr>has_water_hookup := Some (py_in ''W'' amenity_code)\<rparr>;
             d = d\<lparr>has_sewer_hookup := Some (py_in ''S'' amenity_code)\<rparr>
         in if amenity_code \<noteq> ''NH'' then d\<lparr>has_rv_hookup := Some True\<rparr>
            else if amenity_code = ''NH'' then d\<lparr>has_rv_hookup := Some False\<rparr>
            else d)
      else d)"

definition rule_sanitary_dump :: "string \<Rightarrow> amenity_dict \<Rightarrow> amenity_dict" where
  "rule_sanitary_dump amenity_code d =
     (if amenity_code \<in> set [''DP'', ''NP'']
      then d\<lparr>has_sanitary_dump := Some (amenity_code = ''DP'')\<rparr>
      else d)"

text \<open>
  Lines 166 to 168: \<open>int(amenity_code.split("ft")[0])\<close>. The index \<open>[0]\<close> raises on an
  empty list, and \<open>int\<close> raises on a string that is no integer; an exception ends the call.
\<close>

definition rule_max_rv_length :: "nat \<Rightarrow> string \<Rightarrow> amenity_dict \<Rightarrow> error + amenity_dict" where
  "rule_max_rv_length lim amenity_code d =
     (if py_in ''ft'' amenity_code
      then
        (case py_split ''ft'' amenity_code of
           [] \<Rightarrow> Inl IndexError
         | p # _ \<Rightarrow>
             (case py_int lim p of
                Inl e \<Rightarrow> Inl e
              | Inr len \<Rightarrow> Inr (d\<lparr>max_rv_length := Some len\<rparr>)))
      else Inr d)"

definition toilet_map :: "(string \<times> string) list" where
  "toilet_map = [(''FT'', ''flush''), (''VT'', ''vault''), (''FTVT'', ''mixed''), (''PT'', ''pit'')]"

definition rule_toilets :: "string \<Rightarrow> amenity_dict \<Rightarrow> error + amenity_dict" where
  "rule_toilets amenity_code d =
     (if amenity_code \<in> set [''FT'', ''VT'', ''FTVT'', ''PT'', ''NT'']
      then
        if amenity_code = ''NT'' then Inr (d\<lparr>has_toilets := Some False\<rparr>)
        else
          (case map_of toilet_map amenity_code of
             None \<Rightarrow> Inl KeyError
           | Some t \<Rightarrow> Inr (d\<lparr>has_toilets := Some True, toilet_type := Some t\<rparr>))
      else Inr d)"

definition rule_drinking_water :: "string \<Rightarrow> amenity_dict \<Rightarrow> amenity_dict" where
  "rule_drinking_water amenity_code d =
     (if amenity_code \<in> set [''DW'', ''NW'']
      then d\<lparr>has_drinking_water := Some (amenity_code = ''DW'')\<rparr>
      else d)"

definition rule_showers :: "string \<Rightarrow> amenity_dict \<Rightarrow> amenity_dict" where
  "rule_showers amenity_code d =
     (if amenity_code \<in> set [''SH'', ''NS'']
      then d\<lparr>has_showers := Some (amenity_code = ''SH'')\<rparr>
      else d)"

definition rule_reservations :: "string \<Rightarrow> amenity_dict \<Rightarrow> amenity_dict" where
  "rule_reservations amenity_code d =
     (if amenity_code \<in> set [''RS'', ''NR'']
      then d\<lparr>accepts_reservations := Some (amenity_code = ''RS'')\<rparr>
      else d)"

definition rule_pets :: "string \<Rightarrow> amenity_dict \<Rightarrow> amenity_dict" where
  "rule_pets amenity_code d =
     (if amenity_code \<in> set [''PA'', ''NP'']
      then d\<lparr>accepts_pets := Some (amenity_code = ''PA'')\<rparr>
      else d)"

definition rule_low_fee :: "string \<Rightarrow> amenity_dict \<Rightarrow> amenity_dict" where
  "rule_low_fee amenity_code d =
     (if amenity_code = ''L$'' then d\<lparr>low_no_fee := Some True\<rparr> else d)"

text \<open>One pass through the body of the loop, for one code.\<close>

definition amenity_step :: "nat \<Rightarrow> string \<Rightarrow> amenity_dict \<Rightarrow> error + amenity_dict" where
  "amenity_step lim amenity_code d =
     (case rule_max_rv_length lim amenity_code
             (rule_sanitary_dump amenity_code (rule_hookups amenity_code d)) of
        Inl e \<Rightarrow> Inl e
      | Inr d \<Rightarrow>
          (case rule_toilets amenity_code d of
             Inl e \<Rightarrow> Inl e
           | Inr d \<Rightarrow>
               Inr (rule_low_fee amenity_code
                     (rule_pets amenity_code
                       (rule_reservations amenity_code
                         (rule_showers amenity_code
                           (rule_drinking_water amenity_code d)))))))"

text \<open>The loop of line 150, from the left; an exception in one pass ends it.\<close>

fun amenities_loop :: "nat \<Rightarrow> string list \<Rightarrow> amenity_dict \<Rightarrow> error + amenity_dict" where
  "amenities_loop lim [] d = Inr d"
| "amenities_loop lim (amenity_code # amenities) d =
     (case amenity_step lim amenity_code d of
        Inl e \<Rightarrow> Inl e
      | Inr d' \<Rightarrow> amenities_loop lim amenities d')"

text \<open>Line 148: \<open>amenity_str.strip().split(" ")\<close>.\<close>

definition amenity_codes :: "string \<Rightarrow> string list" where
  "amenity_codes amenity_str = py_split '' '' (py_strip amenity_str)"

definition process_campsites_amenities :: "nat \<Rightarrow> string option \<Rightarrow> error + amenity_dict" where
  "process_campsites_amenities lim amenity_str =
     (case amenity_str of
        None \<Rightarrow> Inr amenity_dict0
      | Some s \<Rightarrow> amenities_loop lim (amenity_codes s) amenity_dict0)"

text \<open>
  Reading aids for the statements about the amenity decoder. \<open>ft_prefix\<close> is
  \<open>amenity_code.split("ft")[0]\<close>, the part of a code before its first \<open>ft\<close>.
  \<open>new_rv_length\<close> is what the rule of lines 166 to 168 computes for one code: an error,
  a length, or nothing when the code has no \<open>ft\<close>.
\<close>

definition ft_prefix :: "string \<Rightarrow> string" where
  "ft_prefix amenity_code = (case py_split ''ft'' amenity_code of [] \<Rightarrow> [] | p # _ \<Rightarrow> p)"

definition new_rv_length :: "nat \<Rightarrow> string \<Rightarrow> error + int option" where
  "new_rv_length lim amenity_code =
     (if py_in ''ft'' amenity_code
      then (case py_int lim (ft_prefix amenity_code) of Inl e \<Rightarrow> Inl e | Inr n \<Rightarrow> Inr (Some n))
      else Inr None)"

text \<open>
  The value one code assigns to each field, or \<open>None\<close> when the code does not set the
  field: one table for each field, written out code by code. \<open>assign\<close> stores such a
  value over an old one, and \<open>last_assigned\<close> is the value assigned by the last code of a
  list that sets the field.
\<close>

definition sets_has_water_hookup :: "string \<Rightarrow> bool option" where
  "sets_has_water_hookup =
     map_of [(''NH'', False), (''E'', False), (''WE'', True), (''WES'', True)]"

definition sets_has_electric_hookup :: "string \<Rightarrow> bool option" where
  "sets_has_electric_hookup =
     map_of [(''NH'', False), (''E'', True), (''WE'', True), (''WES'', True)]"

definition sets_has_sewer_hookup :: "string \<Rightarrow> bool option" where
  "sets_has_sewer_hookup =
     map_of [(''NH'', False), (''E'', False), (''WE'', False), (''WES'', True)]"

definition sets_has_rv_hookup :: "string \<Rightarrow> bool option" where
  "sets_has_rv_hookup =
     map_of [(''NH'', False), (''E'', True), (''WE'', True), (''WES'', True)]"

definition sets_has_sanitary_dump :: "string \<Rightarrow> bool option" where
  "sets_has_sanitary_dump = map_of [(''DP'', True), (''NP'', False)]"

definition sets_max_rv_length :: "nat \<Rightarrow> string \<Rightarrow> int option" where
  "sets_max_rv_length lim amenity_code =
     (case new_rv_length lim amenity_code of Inl e \<Rightarrow> None | Inr v \<Rightarrow> v)"

definition sets_has_toilets :: "string \<Rightarrow> bool option" where
  "sets_has_toilets =
     map_of [(''FT'', True), (''VT'', True), (''FTVT'', True), (''PT'', True), (''NT'', False)]"

definition sets_toilet_type :: "string \<Rightarrow> string option" where
  "sets_toilet_type =
     map_of [(''FT'', ''flush''), (''VT'', ''vault''), (''FTVT'', ''mixed''), (''PT'', ''pit'')]"

definition sets_has_drinking_water :: "string \<Rightarrow> bool option" where
  "sets_has_drinking_water = map_of [(''DW'', True), (''NW'', False)]"

definition sets_has_showers :: "string \<Rightarrow> bool option" where
  "sets_has_showers = map_of [(''SH'', True), (''NS'', False)]"

definition sets_accepts_reservations :: "string \<Rightarrow> bool option" where
  "sets_accepts_reservations = map_of [(''RS'', True), (''NR'', False)]"

definition sets_accepts_pets :: "string \<Rightarrow> bool option" where
  "sets_accepts_pets = map_of [(''PA'', True), (''NP'', False)]"

definition sets_low_no_fee :: "string \<Rightarrow> bool option" where
  "sets_low_no_fee = map_of [(''L$'', True)]"

definition assign :: "'v option \<Rightarrow> 'v option \<Rightarrow> 'v option" where
  "assign new old = (case new of None \<Rightarrow> old | Some v \<Rightarrow> Some v)"

definition last_assigned :: "('t \<Rightarrow> 'v option) \<Rightarrow> 't list \<Rightarrow> 'v option" where
  "last_assigned g ts = (case filter (\<lambda>t. g t \<noteq> None) ts of [] \<Rightarrow> None | us \<Rightarrow> g (last us))"

section \<open>Lemmas on the string functions\<close>

lemma re_sub_runs_filter: "re_sub_runs cls [] s = filter (\<lambda>c. \<not> cls c) s"
proof (induction cls "[] :: string" s rule: re_sub_runs.induct)
  case (1 cls)
  show ?case by simp
next
  case (2 cls c cs)
  have run: "filter (\<lambda>c. \<not> cls c) (dropWhile cls cs) = filter (\<lambda>c. \<not> cls c) cs"
    by (induction cs) auto
  from 2 run show ?case by simp
qed

lemma py_split_not_Nil: "py_split sep s \<noteq> []"
  by (induction sep s rule: py_split.induct) (auto split: list.splits)

section \<open>Lemmas on the season decoder\<close>

lemma pop_until_month_dropWhile:
  "pop_until_month x xs =
     (case dropWhile (\<lambda>t. \<not> is_month t) (x # xs) of
        [] \<Rightarrow> (last (x # xs), [])
      | m # rest \<Rightarrow> (m, rest))"
proof (induction xs arbitrary: x)
  case Nil
  show ?case by (simp add: is_month_def)
next
  case (Cons y ys)
  show ?case
  proof (cases "is_month x")
    case True
    then show ?thesis by (simp add: is_month_def)
  next
    case False
    then have a: "pop_until_month x (y # ys) = pop_until_month y ys"
      by (simp add: is_month_def)
    from False have b: "dropWhile (\<lambda>t. \<not> is_month t) (x # y # ys) =
        dropWhile (\<lambda>t. \<not> is_month t) (y # ys)"
      by simp
    have c: "last (x # y # ys) = last (y # ys)" by simp
    show ?thesis unfolding a b c by (rule Cons.IH)
  qed
qed

lemma fst_pop_until_month: "fst (pop_until_month x xs) = close_token (x # xs)"
  by (induction xs arbitrary: x) (auto simp: is_month_def close_token_def split: option.splits)

lemma distinct_dates_keys: "distinct (map fst dates_map)"
  by (simp add: dates_map_def)

lemma fold_month_open:
  "distinct (map fst kvs) \<Longrightarrow>
   fold (\<lambda>(month, v) d. if month = t then d\<lparr>month_open := Some v\<rparr> else d) kvs d =
     (case map_of kvs t of None \<Rightarrow> d | Some v \<Rightarrow> d\<lparr>month_open := Some v\<rparr>)"
proof (induction kvs arbitrary: d)
  case Nil
  show ?case by simp
next
  case (Cons kv kvs)
  obtain k v where kv: "kv = (k, v)" by (cases kv)
  from Cons.prems kv have d: "distinct (map fst kvs)" and k: "k \<notin> fst ` set kvs" by auto
  show ?case
  proof (cases "k = t")
    case True
    with k have "map_of kvs t = None" by (simp add: map_of_eq_None_iff)
    with True kv Cons.IH [OF d] show ?thesis by simp
  next
    case False
    with kv Cons.IH [OF d] show ?thesis by simp
  qed
qed

lemma set_month_open_eq:
  "set_month_open t d =
     (case map_of dates_map t of None \<Rightarrow> d | Some v \<Rightarrow> d\<lparr>month_open := Some v\<rparr>)"
  unfolding set_month_open_def by (rule fold_month_open [OF distinct_dates_keys])

lemma fold_month_close:
  "fold (\<lambda>(month, v) d. if P month then d\<lparr>month_close := Some v\<rparr> else d) kvs d =
     (case map snd (filter (\<lambda>(month, v). P month) kvs) of
        [] \<Rightarrow> d
      | ms \<Rightarrow> d\<lparr>month_close := Some (last ms)\<rparr>)"
proof (induction kvs rule: rev_induct)
  case Nil
  show ?case by simp
next
  case (snoc kv kvs)
  obtain k v where kv: "kv = (k, v)" by (cases kv)
  show ?case using snoc.IH kv by (simp split: list.splits)
qed

lemma set_month_close_eq:
  "set_month_close t d =
     (case months_in t of [] \<Rightarrow> d | ms \<Rightarrow> d\<lparr>month_close := Some (last ms)\<rparr>)"
  unfolding set_month_close_def months_in_def by (rule fold_month_close)

lemma sorted_months_in: "sorted (months_in t)"
proof -
  have "sorted (map snd dates_map)" by (simp add: dates_map_def)
  then show ?thesis unfolding months_in_def by (rule sorted_filter)
qed

lemma sorted_last_Max: "sorted xs \<Longrightarrow> xs \<noteq> [] \<Longrightarrow> last xs = Max (set (xs :: int list))"
proof (induction xs)
  case Nil
  then show ?case by simp
next
  case (Cons x xs)
  show ?case
  proof (cases "xs = []")
    case True
    then show ?thesis by simp
  next
    case False
    with Cons have "last xs = Max (set xs)" by simp
    moreover have "x \<le> Max (set xs)"
    proof -
      from False obtain y where y: "y \<in> set xs" by (cases xs) auto
      with Cons.prems have "x \<le> y" by simp
      also from y have "y \<le> Max (set xs)" by simp
      finally show ?thesis .
    qed
    ultimately show ?thesis using False by (simp add: max_absorb2)
  qed
qed

lemma date_open_arr_not_Nil: "date_open_arr s \<noteq> []"
  by (simp add: date_open_arr_def py_split_not_Nil)

text \<open>The decoder on a string other than "all year", by what the first scan finds.\<close>

lemma process_campsites_dates_scan:
  assumes "s \<noteq> ''all year''"
  shows "process_campsites_dates (Some s) =
     (case dropWhile (\<lambda>t. \<not> is_month t) (date_open_arr s) of
        [] \<Rightarrow> Inr (set_month_open (last (date_open_arr s)) \<lparr>month_open = None, month_close = None\<rparr>)
      | m # rest \<Rightarrow>
          if rest = [] then Inr (set_month_open m \<lparr>month_open = None, month_close = None\<rparr>)
          else Inr (set_month_close (close_token rest)
                 (set_month_open m \<lparr>month_open = None, month_close = None\<rparr>)))"
proof -
  obtain t ts where toks: "date_open_arr s = t # ts"
    using date_open_arr_not_Nil [of s] by (cases "date_open_arr s") auto
  show ?thesis
  proof (cases "dropWhile (\<lambda>t. \<not> is_month t) (t # ts)")
    case Nil
    then have "pop_until_month t ts = (last (t # ts), [])"
      by (simp add: pop_until_month_dropWhile)
    with Nil assms toks show ?thesis
      by (simp add: process_campsites_dates_def)
  next
    case (Cons m rest)
    then have p: "pop_until_month t ts = (m, rest)"
      by (simp add: pop_until_month_dropWhile)
    show ?thesis
    proof (cases rest)
      case Nil
      with p Cons assms toks show ?thesis
        by (simp add: process_campsites_dates_def)
    next
      case (Cons c cs)
      obtain arr3 where "pop_until_month c cs = (close_token (c # cs), arr3)"
        using fst_pop_until_month [of c cs] by (cases "pop_until_month c cs") simp
      with p Cons \<open>dropWhile (\<lambda>t. \<not> is_month t) (t # ts) = m # rest\<close> assms toks show ?thesis
        by (simp add: process_campsites_dates_def)
    qed
  qed
qed

lemma process_campsites_dates_total: "\<exists>r. process_campsites_dates x = Inr r"
proof (cases x)
  case None
  then show ?thesis by (simp add: process_campsites_dates_def)
next
  case (Some s)
  show ?thesis
  proof (cases "s = ''all year''")
    case True
    with Some show ?thesis by (simp add: process_campsites_dates_def)
  next
    case False
    then show ?thesis unfolding Some process_campsites_dates_scan [OF False]
      by (simp split: list.splits)
  qed
qed

lemma is_month_iff:
  "is_month t \<longleftrightarrow>
     t \<in> {''jan'', ''feb'', ''mar'', ''apr'', ''may'', ''jun'', ''jul'', ''aug'', ''sep'',
          ''oct'', ''nov'', ''dec''}"
  by (simp add: is_month_def dates_keys_def dates_map_def)

lemma month_close_set_month_close:
  "month_close (set_month_close t d) =
     (if months_in t = [] then month_close d else Some (last (months_in t)))"
  by (simp add: set_month_close_eq split: list.splits)

section \<open>Lemmas on the amenity decoder\<close>

lemma rule_hookups_eq:
  "rule_hookups c d =
     d\<lparr>has_electric_hookup := assign (sets_has_electric_hookup c) (has_electric_hookup d),
       has_water_hookup := assign (sets_has_water_hookup c) (has_water_hookup d),
       has_sewer_hookup := assign (sets_has_sewer_hookup c) (has_sewer_hookup d),
       has_rv_hookup := assign (sets_has_rv_hookup c) (has_rv_hookup d)\<rparr>"
  by (auto simp: rule_hookups_def assign_def sets_has_electric_hookup_def
        sets_has_water_hookup_def sets_has_sewer_hookup_def sets_has_rv_hookup_def)

lemma rule_sanitary_dump_eq:
  "rule_sanitary_dump c d =
     d\<lparr>has_sanitary_dump := assign (sets_has_sanitary_dump c) (has_sanitary_dump d)\<rparr>"
  by (auto simp: rule_sanitary_dump_def assign_def sets_has_sanitary_dump_def)

lemma rule_drinking_water_eq:
  "rule_drinking_water c d =
     d\<lparr>has_drinking_water := assign (sets_has_drinking_water c) (has_drinking_water d)\<rparr>"
  by (auto simp: rule_drinking_water_def assign_def sets_has_drinking_water_def)

lemma rule_showers_eq:
  "rule_showers c d = d\<lparr>has_showers := assign (sets_has_showers c) (has_showers d)\<rparr>"
  by (auto simp: rule_showers_def assign_def sets_has_showers_def)

lemma rule_reservations_eq:
  "rule_reservations c d =
     d\<lparr>accepts_reservations := assign (sets_accepts_reservations c) (accepts_reservations d)\<rparr>"
  by (auto simp: rule_reservations_def assign_def sets_accepts_reservations_def)

lemma rule_pets_eq:
  "rule_pets c d = d\<lparr>accepts_pets := assign (sets_accepts_pets c) (accepts_pets d)\<rparr>"
  by (auto simp: rule_pets_def assign_def sets_accepts_pets_def)

lemma rule_low_fee_eq:
  "rule_low_fee c d = d\<lparr>low_no_fee := assign (sets_low_no_fee c) (low_no_fee d)\<rparr>"
  by (auto simp: rule_low_fee_def assign_def sets_low_no_fee_def)

lemma rule_toilets_eq:
  "rule_toilets c d =
     Inr (d\<lparr>has_toilets := assign (sets_has_toilets c) (has_toilets d),
            toilet_type := assign (sets_toilet_type c) (toilet_type d)\<rparr>)"
  by (auto simp: rule_toilets_def assign_def sets_has_toilets_def sets_toilet_type_def
        toilet_map_def)

lemma rule_max_rv_length_eq:
  "rule_max_rv_length lim c d =
     (case new_rv_length lim c of
        Inl e \<Rightarrow> Inl e
      | Inr v \<Rightarrow> Inr (d\<lparr>max_rv_length := assign v (max_rv_length d)\<rparr>))"
  using py_split_not_Nil [of "''ft''" c]
  by (auto simp: rule_max_rv_length_def new_rv_length_def ft_prefix_def assign_def
        split: list.splits sum.splits)


lemmas rule_eqs = rule_hookups_eq rule_sanitary_dump_eq rule_drinking_water_eq rule_showers_eq
  rule_reservations_eq rule_pets_eq rule_low_fee_eq rule_toilets_eq rule_max_rv_length_eq

text \<open>One pass of the loop fails exactly when the length rule does.\<close>

lemma amenity_step_Inl: "amenity_step lim c d = Inl e \<longleftrightarrow> new_rv_length lim c = Inl e"
  by (simp add: amenity_step_def rule_eqs split: sum.splits)

lemma amenity_step_Inr:
  assumes "amenity_step lim c d = Inr d'"
  shows "has_water_hookup d' = assign (sets_has_water_hookup c) (has_water_hookup d)"
    and "has_electric_hookup d' = assign (sets_has_electric_hookup c) (has_electric_hookup d)"
    and "has_sewer_hookup d' = assign (sets_has_sewer_hookup c) (has_sewer_hookup d)"
    and "has_rv_hookup d' = assign (sets_has_rv_hookup c) (has_rv_hookup d)"
    and "has_sanitary_dump d' = assign (sets_has_sanitary_dump c) (has_sanitary_dump d)"
    and "max_rv_length d' = assign (sets_max_rv_length lim c) (max_rv_length d)"
    and "has_toilets d' = assign (sets_has_toilets c) (has_toilets d)"
    and "toilet_type d' = assign (sets_toilet_type c) (toilet_type d)"
    and "has_drinking_water d' = assign (sets_has_drinking_water c) (has_drinking_water d)"
    and "has_showers d' = assign (sets_has_showers c) (has_showers d)"
    and "accepts_reservations d' = assign (sets_accepts_reservations c) (accepts_reservations d)"
    and "accepts_pets d' = assign (sets_accepts_pets c) (accepts_pets d)"
    and "low_no_fee d' = assign (sets_low_no_fee c) (low_no_fee d)"
proof -
  from assms obtain v where v: "new_rv_length lim c = Inr v"
    by (cases "new_rv_length lim c") (simp_all add: amenity_step_def rule_eqs)
  with assms have d': "d' =
      d\<lparr>has_electric_hookup := assign (sets_has_electric_hookup c) (has_electric_hookup d),
        has_water_hookup := assign (sets_has_water_hookup c) (has_water_hookup d),
        has_sewer_hookup := assign (sets_has_sewer_hookup c) (has_sewer_hookup d),
        has_rv_hookup := assign (sets_has_rv_hookup c) (has_rv_hookup d),
        has_sanitary_dump := assign (sets_has_sanitary_dump c) (has_sanitary_dump d),
        max_rv_length := assign v (max_rv_length d),
        has_toilets := assign (sets_has_toilets c) (has_toilets d),
        toilet_type := assign (sets_toilet_type c) (toilet_type d),
        has_drinking_water := assign (sets_has_drinking_water c) (has_drinking_water d),
        has_showers := assign (sets_has_showers c) (has_showers d),
        accepts_reservations := assign (sets_accepts_reservations c) (accepts_reservations d),
        accepts_pets := assign (sets_accepts_pets c) (accepts_pets d),
        low_no_fee := assign (sets_low_no_fee c) (low_no_fee d)\<rparr>"
    by (simp add: amenity_step_def rule_eqs)
  from v have m: "sets_max_rv_length lim c = v" by (simp add: sets_max_rv_length_def)
  show "has_water_hookup d' = assign (sets_has_water_hookup c) (has_water_hookup d)"
    and "has_electric_hookup d' = assign (sets_has_electric_hookup c) (has_electric_hookup d)"
    and "has_sewer_hookup d' = assign (sets_has_sewer_hookup c) (has_sewer_hookup d)"
    and "has_rv_hookup d' = assign (sets_has_rv_hookup c) (has_rv_hookup d)"
    and "has_sanitary_dump d' = assign (sets_has_sanitary_dump c) (has_sanitary_dump d)"
    and "max_rv_length d' = assign (sets_max_rv_length lim c) (max_rv_length d)"
    and "has_toilets d' = assign (sets_has_toilets c) (has_toilets d)"
    and "toilet_type d' = assign (sets_toilet_type c) (toilet_type d)"
    and "has_drinking_water d' = assign (sets_has_drinking_water c) (has_drinking_water d)"
    and "has_showers d' = assign (sets_has_showers c) (has_showers d)"
    and "accepts_reservations d' = assign (sets_accepts_reservations c) (accepts_reservations d)"
    and "accepts_pets d' = assign (sets_accepts_pets c) (accepts_pets d)"
    and "low_no_fee d' = assign (sets_low_no_fee c) (low_no_fee d)"
    by (simp_all add: d' m)
qed

lemma last_assigned_Nil: "last_assigned g [] = None"
  by (simp add: last_assigned_def)

lemma last_assigned_if:
  "last_assigned g ts =
     (if filter (\<lambda>t. g t \<noteq> None) ts = [] then None
      else g (last (filter (\<lambda>t. g t \<noteq> None) ts)))"
  by (simp add: last_assigned_def split: list.splits)

lemma last_assigned_snoc:
  "last_assigned g (ts @ [t]) = assign (g t) (last_assigned g ts)"
  by (cases "g t") (simp_all add: last_assigned_if assign_def)

lemma last_assigned_append:
  "last_assigned g (ts @ us) = assign (last_assigned g us) (last_assigned g ts)"
proof (induction us rule: rev_induct)
  case Nil
  show ?case by (simp add: last_assigned_Nil assign_def)
next
  case (snoc u us)
  have "last_assigned g (ts @ us @ [u]) = assign (g u) (last_assigned g (ts @ us))"
    using last_assigned_snoc [of g "ts @ us" u] by simp
  with snoc show ?case
    by (simp add: last_assigned_snoc assign_def split: option.splits)
qed

lemma last_assigned_Cons:
  "last_assigned g (t # ts) = assign (last_assigned g ts) (g t)"
proof -
  have "last_assigned g ([t] @ ts) = assign (last_assigned g ts) (last_assigned g [t])"
    by (rule last_assigned_append)
  moreover have "last_assigned g [t] = g t"
    by (cases "g t") (simp_all add: last_assigned_if)
  ultimately show ?thesis by simp
qed

lemma last_assigned_Some:
  "last_assigned g ts = Some v \<Longrightarrow> \<exists>t\<in>set ts. g t = Some v"
proof (induction ts rule: rev_induct)
  case Nil
  then show ?case by (simp add: last_assigned_Nil)
next
  case (snoc t ts)
  then show ?case
    by (cases "g t") (auto simp: last_assigned_snoc assign_def)
qed

lemma amenities_loop_append:
  "amenities_loop lim (cs @ cs') d =
     (case amenities_loop lim cs d of
        Inl e \<Rightarrow> Inl e
      | Inr d' \<Rightarrow> amenities_loop lim cs' d')"
  by (induction cs arbitrary: d) (auto split: sum.splits)

text \<open>
  A field that every pass assigns by the table \<open>g\<close> holds, after the loop, the value
  assigned by the last code that sets it.
\<close>

lemma amenities_loop_field:
  assumes step: "\<And>c d d'. amenity_step lim c d = Inr d' \<Longrightarrow> f d' = assign (g c) (f d)"
    and loop: "amenities_loop lim cs d = Inr r"
  shows "f r = assign (last_assigned g cs) (f d)"
  using loop
proof (induction cs arbitrary: d)
  case Nil
  then show ?case by (simp add: last_assigned_Nil assign_def)
next
  case (Cons c cs)
  from Cons.prems obtain d' where s: "amenity_step lim c d = Inr d'"
    and l: "amenities_loop lim cs d' = Inr r"
    by (cases "amenity_step lim c d") auto
  from Cons.IH [OF l] step [OF s] show ?case
    by (simp add: last_assigned_Cons assign_def split: option.splits)
qed

text \<open>The loop returns a dictionary exactly when the length rule fails on no code.\<close>

lemma amenities_loop_Inr_iff:
  "(\<exists>r. amenities_loop lim cs d = Inr r) \<longleftrightarrow>
     (\<forall>c\<in>set cs. \<exists>v. new_rv_length lim c = Inr v)"
proof (induction cs arbitrary: d)
  case Nil
  show ?case by simp
next
  case (Cons c cs)
  show ?case
  proof (cases "amenity_step lim c d")
    case (Inl e)
    then have "new_rv_length lim c = Inl e" by (simp add: amenity_step_Inl)
    with Inl show ?thesis by simp
  next
    case (Inr d')
    have "\<exists>v. new_rv_length lim c = Inr v"
    proof (cases "new_rv_length lim c")
      case (Inl e)
      then have "amenity_step lim c d = Inl e" by (simp add: amenity_step_Inl)
      with Inr show ?thesis by simp
    next
      case (Inr v)
      then show ?thesis by simp
    qed
    with Inr Cons.IH [of d'] show ?thesis by simp
  qed
qed

lemma amenities_loop_Inl:
  "amenities_loop lim cs d = Inl e \<Longrightarrow> \<exists>c\<in>set cs. new_rv_length lim c = Inl e"
  by (induction cs arbitrary: d) (auto simp: amenity_step_Inl split: sum.splits)

lemma scan_digits_error: "scan_digits u s = Inl e \<Longrightarrow> e = ValueError"
  by (induction u s rule: scan_digits.induct) (auto split: if_splits sum.splits)

lemma py_int_error: "py_int lim s = Inl e \<Longrightarrow> e = ValueError"
  by (auto simp: py_int_def Let_def split: if_splits sum.splits list.splits prod.splits
        dest: scan_digits_error)

lemma py_int_nonneg:
  assumes "py_int lim s = Inr n" and "CHR ''-'' \<notin> set s"
  shows "0 \<le> n"
proof -
  have "set (dropWhile int_space s) \<subseteq> set s" by (rule set_dropWhileD [THEN subsetI])
  with assms(2) have "CHR ''-'' \<notin> set (dropWhile int_space s)" by blast
  with assms(1) show ?thesis
    by (auto simp: py_int_def Let_def split: if_splits sum.splits list.splits prod.splits)
qed

lemma new_rv_length_error: "new_rv_length lim c = Inl e \<Longrightarrow> e = ValueError"
  by (auto simp: new_rv_length_def split: if_splits sum.splits dest: py_int_error)

lemma assign_None_right: "assign x None = x"
  by (cases x) (simp_all add: assign_def)

lemma new_rv_length_Inr_iff:
  "(\<exists>v. new_rv_length lim c = Inr v) \<longleftrightarrow>
     (py_in ''ft'' c \<longrightarrow> (\<exists>n. py_int lim (ft_prefix c) = Inr n))"
  by (cases "py_int lim (ft_prefix c)") (simp_all add: new_rv_length_def)

lemma process_campsites_amenities_field:
  assumes step: "\<And>c d d'. amenity_step lim c d = Inr d' \<Longrightarrow> f d' = assign (g c) (f d)"
    and init: "f amenity_dict0 = None"
    and run: "process_campsites_amenities lim (Some s) = Inr r"
  shows "f r = last_assigned g (amenity_codes s)"
proof -
  from run have "amenities_loop lim (amenity_codes s) amenity_dict0 = Inr r"
    by (simp add: process_campsites_amenities_def)
  from amenities_loop_field [of lim f g, OF step this] init show ?thesis
    by (simp add: assign_None_right)
qed

lemma sets_max_rv_length_ft:
  assumes "new_rv_length lim c = Inr v"
  shows "sets_max_rv_length lim c \<noteq> None \<longleftrightarrow> py_in ''ft'' c"
    and "sets_max_rv_length lim c = Some n \<Longrightarrow> py_int lim (ft_prefix c) = Inr n"
  using assms
  by (auto simp: sets_max_rv_length_def new_rv_length_def split: if_splits sum.splits)

lemma sets_has_sanitary_dump_True: "sets_has_sanitary_dump c = Some True \<Longrightarrow> c = ''DP''"
  by (simp add: sets_has_sanitary_dump_def split: if_splits)

lemma sets_accepts_pets_True: "sets_accepts_pets c = Some True \<Longrightarrow> c = ''PA''"
  by (simp add: sets_accepts_pets_def split: if_splits)

lemma assign_last_assigned_False:
  assumes "\<And>c. g c = Some True \<Longrightarrow> c = k" and "k \<notin> set cs"
  shows "assign (last_assigned g cs) (Some False) = Some False"
proof (cases "last_assigned g cs")
  case None
  then show ?thesis by (simp add: assign_def)
next
  case (Some v)
  then obtain c where "c \<in> set cs" and "g c = Some v" by (blast dest: last_assigned_Some)
  with assms have "v = False" by (cases v) auto
  with Some show ?thesis by (simp add: assign_def)
qed

section \<open>The examples of the spec, evaluated\<close>

lemma example_phone_number:
  "process_campsites_phone_number (Some ''(555) 123-4567'') = Some ''5551234567''"
  by code_simp

lemma example_dates:
  "process_campsites_dates None = Inr \<lparr>month_open = None, month_close = None\<rparr>"
  "process_campsites_dates (Some ''all year'') = Inr \<lparr>month_open = Some 1, month_close = Some 12\<rparr>"
  "process_campsites_dates (Some ''mid may-late sep'') =
     Inr \<lparr>month_open = Some 5, month_close = Some 9\<rparr>"
  "process_campsites_dates (Some ''jun'') = Inr \<lparr>month_open = Some 6, month_close = None\<rparr>"
  "process_campsites_dates (Some ''xyz'') = Inr \<lparr>month_open = None, month_close = None\<rparr>"
  by code_simp+

lemma example_amenities:
  "process_campsites_amenities 4300 None = Inr amenity_dict0"
  "process_campsites_amenities 4300 (Some ''WES DP FT DW SH RS PA L$'') =
     Inr \<lparr>has_water_hookup = Some True, has_electric_hookup = Some True,
          has_sewer_hookup = Some True, has_sanitary_dump = Some True, max_rv_length = None,
          has_toilets = Some True, toilet_type = Some ''flush'',
          has_drinking_water = Some True, has_showers = Some True,
          accepts_reservations = Some True, accepts_pets = Some True,
          low_no_fee = Some True, has_rv_hookup = Some True\<rparr>"
  "process_campsites_amenities 4300 (Some ''NP'') =
     Inr (amenity_dict0\<lparr>has_sanitary_dump := Some False, accepts_pets := Some False\<rparr>)"
  "process_campsites_amenities 4300 (Some ''30ft'') =
     Inr (amenity_dict0\<lparr>max_rv_length := Some 30\<rparr>)"
  by code_simp+

section \<open>The phone normalizer\<close>

text \<open>
  C4: \<open>process_campsites_phone_number\<close> maps \<open>None\<close> to \<open>None\<close>, and a string to the string
  left when exactly the characters outside \<open>[A-Za-z0-9]\<close> are deleted: the kept characters
  stay in their order and unchanged (\<open>filter\<close>).
\<close>

theorem phone_number_deletes_non_alnum:
  "process_campsites_phone_number None = None \<and>
   process_campsites_phone_number (Some s) = Some (filter is_alnum s)"
  by (simp add: process_campsites_phone_number_def re_sub_runs_filter)

text \<open>
  C8: normalizing a normalized phone number changes nothing, for \<open>None\<close> and for every
  string.
\<close>

theorem phone_number_idempotent:
  "process_campsites_phone_number (process_campsites_phone_number s) =
     process_campsites_phone_number s"
  by (cases s) (simp_all add: process_campsites_phone_number_def re_sub_runs_filter)

section \<open>The country classifier\<close>

text \<open>
  C6: \<open>process_campsites_country\<close> returns \<open>CAN\<close> exactly on the thirteen province and
  territory abbreviations and \<open>USA\<close> on every other string, \<open>CA\<close> among them; it
  returns nothing else.
\<close>

theorem country_is_CAN_iff_province:
  "(process_campsites_country s = ''CAN'' \<longleftrightarrow>
      s \<in> {''AB'', ''BC'', ''MB'', ''NB'', ''NL'', ''NT'', ''NS'', ''NU'', ''ON'', ''PE'', ''QC'',
           ''SK'', ''YT''}) \<and>
   (process_campsites_country s = ''USA'' \<longleftrightarrow>
      s \<notin> {''AB'', ''BC'', ''MB'', ''NB'', ''NL'', ''NT'', ''NS'', ''NU'', ''ON'', ''PE'', ''QC'',
           ''SK'', ''YT''}) \<and>
   process_campsites_country s \<in> {''CAN'', ''USA''} \<and>
   process_campsites_country ''CA'' = ''USA''"
  by (simp add: process_campsites_country_def canadian_provinces_def)

theorem country_is_CAN_iff_province_witness:
  "process_campsites_country ''ON'' = ''CAN'' \<and> process_campsites_country ''zz'' = ''USA''"
  using country_is_CAN_iff_province [of "''ON''"] country_is_CAN_iff_province [of "''zz''"]
  by simp

section \<open>The season decoder\<close>

text \<open>
  C5: for a string other than "all year", with the tokens of line 60: the first token
  that is exactly a month abbreviation gives \<open>month_open\<close> its number; if no token is one,
  the decoder returns with both months absent (it returns at line 70, before the second
  scan).
\<close>

theorem open_month_first_exact_match:
  assumes "s \<noteq> ''all year''"
  shows "\<exists>r. process_campsites_dates (Some s) = Inr r \<and>
     (case find is_month (date_open_arr s) of
        None \<Rightarrow> r = \<lparr>month_open = None, month_close = None\<rparr>
      | Some t \<Rightarrow> month_open r = map_of dates_map t \<and> month_open r \<noteq> None)"
proof (cases "dropWhile (\<lambda>t. \<not> is_month t) (date_open_arr s)")
  case Nil
  then have all: "\<forall>t\<in>set (date_open_arr s). \<not> is_month t" by (simp add: dropWhile_eq_Nil_conv)
  then have none: "find is_month (date_open_arr s) = None" by (simp add: find_None_iff)
  from all have "\<not> is_month (last (date_open_arr s))"
    using date_open_arr_not_Nil [of s] by simp
  then have "map_of dates_map (last (date_open_arr s)) = None"
    by (simp add: is_month_def dates_keys_def map_of_eq_None_iff)
  moreover have "process_campsites_dates (Some s) =
      Inr (set_month_open (last (date_open_arr s)) \<lparr>month_open = None, month_close = None\<rparr>)"
    by (simp only: process_campsites_dates_scan [OF assms] Nil list.case)
  ultimately show ?thesis using none
    by (simp add: set_month_open_eq)
next
  case (Cons m rest)
  then have m: "is_month m"
    by (metis (mono_tags, lifting) dropWhile_eq_Cons_conv)
  from Cons have f: "find is_month (date_open_arr s) = Some m"
    by (simp add: find_dropWhile comp_def)
  from m obtain v where v: "map_of dates_map m = Some v"
    by (cases "map_of dates_map m") (auto simp: is_month_def dates_keys_def map_of_eq_None_iff)
  have c: "month_open (set_month_close c d) = month_open d" for c d
    by (simp add: set_month_close_eq split: list.splits)
  have "process_campsites_dates (Some s) =
      (if rest = [] then Inr (set_month_open m \<lparr>month_open = None, month_close = None\<rparr>)
       else Inr (set_month_close (close_token rest)
              (set_month_open m \<lparr>month_open = None, month_close = None\<rparr>)))"
    by (simp only: process_campsites_dates_scan [OF assms] Cons list.case)
  with f v show ?thesis
    by (simp add: set_month_open_eq c)
qed


theorem open_month_first_exact_match_witness:
  "''mid may-late sep'' \<noteq> ''all year'' \<and>
   find is_month (date_open_arr ''mid may-late sep'') = Some ''may'' \<and>
   (\<exists>r. process_campsites_dates (Some ''mid may-late sep'') = Inr r \<and> month_open r = Some 5)"
proof -
  have a: "''mid may-late sep'' \<noteq> ''all year''" by simp
  have b: "find is_month (date_open_arr ''mid may-late sep'') = Some ''may''"
    by code_simp
  have c: "map_of dates_map ''may'' = Some 5" by code_simp
  from open_month_first_exact_match [OF a] b c show ?thesis by auto
qed

text \<open>
  C2, as the spec states it, fails: on "may-sept 15" the tokens left after the open month
  are \<open>sept\<close> and \<open>15\<close>, the first of them contains \<open>sep\<close>, and \<open>month_close\<close> stays
  absent, because the loop of line 74 passes over a token that is not exactly a month.
\<close>

theorem close_scan_not_by_containment:
  "process_campsites_dates (Some ''may-sept 15'') =
     Inr \<lparr>month_open = Some 5, month_close = None\<rparr> \<and>
   date_open_arr ''may-sept 15'' = [''may'', ''sept'', ''15''] \<and>
   close_by_containment [''sept'', ''15''] = Some 9"
  by code_simp

text \<open>
  C2, amended: when an open month has been matched and tokens remain, the second scan
  stops on the first remaining token that is exactly a month abbreviation, or on the last
  remaining token when none is; substring containment is applied to that one token only:
  \<open>month_close\<close> is the number of the last abbreviation, in the order of the table, that
  occurs in it, and stays absent when none occurs.
\<close>

theorem close_scan_stops_on_exact_month:
  assumes "s \<noteq> ''all year''"
    and "dropWhile (\<lambda>t. \<not> is_month t) (date_open_arr s) = m # rest"
    and "rest \<noteq> []"
  shows "\<exists>r. process_campsites_dates (Some s) = Inr r \<and>
           month_close r =
             (case months_in (close_token rest) of [] \<Rightarrow> None | ms \<Rightarrow> Some (last ms))"
proof -
  have "process_campsites_dates (Some s) =
      Inr (set_month_close (close_token rest)
             (set_month_open m \<lparr>month_open = None, month_close = None\<rparr>))"
    using assms(3)
    by (simp only: process_campsites_dates_scan [OF assms(1)] assms(2) list.case if_False)
  moreover have "month_close (set_month_open m d) = month_close d" for d
    by (simp add: set_month_open_eq split: option.splits)
  ultimately show ?thesis
    by (simp add: set_month_close_eq split: list.splits)
qed

theorem close_scan_stops_on_exact_month_witness:
  "dropWhile (\<lambda>t. \<not> is_month t) (date_open_arr ''may-sept 15'') = [''may'', ''sept'', ''15''] \<and>
   close_token [''sept'', ''15''] = ''15'' \<and>
   (\<exists>r. process_campsites_dates (Some ''may-sept 15'') = Inr r \<and> month_close r = None)"
proof -
  have a: "''may-sept 15'' \<noteq> ''all year''" by simp
  have b: "dropWhile (\<lambda>t. \<not> is_month t) (date_open_arr ''may-sept 15'') =
      ''may'' # [''sept'', ''15'']"
    by code_simp
  have c: "[''sept'', ''15''] \<noteq> []" by simp
  have d: "close_token [''sept'', ''15''] = ''15''" by code_simp
  have e: "months_in ''15'' = []" by code_simp
  from close_scan_stops_on_exact_month [OF a b c] b d e show ?thesis by simp
qed

text \<open>
  C10: when the token the second scan stops on contains month abbreviations, \<open>month_close\<close>
  is the highest month number among those it contains; the stop token \<open>junjul\<close> gives 7.
\<close>

theorem close_month_latest_contained:
  assumes "s \<noteq> ''all year''"
    and "dropWhile (\<lambda>t. \<not> is_month t) (date_open_arr s) = m # rest"
    and "rest \<noteq> []"
    and "months_in (close_token rest) \<noteq> []"
  shows "\<exists>r. process_campsites_dates (Some s) = Inr r \<and>
           month_close r = Some (Max (set (months_in (close_token rest))))"
proof -
  have "process_campsites_dates (Some s) =
      Inr (set_month_close (close_token rest)
             (set_month_open m \<lparr>month_open = None, month_close = None\<rparr>))"
    using assms(3)
    by (simp only: process_campsites_dates_scan [OF assms(1)] assms(2) list.case if_False)
  moreover have "last (months_in (close_token rest)) = Max (set (months_in (close_token rest)))"
    by (rule sorted_last_Max [OF sorted_months_in assms(4)])
  ultimately show ?thesis using assms(4)
    by (simp add: month_close_set_month_close)
qed

theorem close_month_latest_contained_witness:
  "dropWhile (\<lambda>t. \<not> is_month t) (date_open_arr ''may junjul'') = [''may'', ''junjul''] \<and>
   months_in (close_token [''junjul'']) = [6, 7] \<and>
   (\<exists>r. process_campsites_dates (Some ''may junjul'') = Inr r \<and> month_close r = Some 7)"
proof -
  have a: "''may junjul'' \<noteq> ''all year''" by simp
  have b: "dropWhile (\<lambda>t. \<not> is_month t) (date_open_arr ''may junjul'') = ''may'' # [''junjul'']"
    by code_simp
  have c: "[''junjul''] \<noteq> []" by simp
  have d: "months_in (close_token [''junjul'']) = [6, 7]" by code_simp
  then have e: "months_in (close_token [''junjul'']) \<noteq> []" by simp
  from close_month_latest_contained [OF a b c e] b d show ?thesis by simp
qed

section \<open>The amenity decoder\<close>

text \<open>
  C9: the codes are processed from the left and a later assignment overwrites an earlier
  one: whenever the decoder returns a dictionary, every field holds the value assigned by
  the last code of the input that sets the field (and is absent when no code sets it).
  "DW NW" gives \<open>has_drinking_water\<close> false and "NW DW" gives it true.
\<close>

theorem amenities_last_code_wins:
  assumes "process_campsites_amenities lim (Some s) = Inr r"
  shows "has_water_hookup r = last_assigned sets_has_water_hookup (amenity_codes s) \<and>
    has_electric_hookup r = last_assigned sets_has_electric_hookup (amenity_codes s) \<and>
    has_sewer_hookup r = last_assigned sets_has_sewer_hookup (amenity_codes s) \<and>
    has_rv_hookup r = last_assigned sets_has_rv_hookup (amenity_codes s) \<and>
    has_sanitary_dump r = last_assigned sets_has_sanitary_dump (amenity_codes s) \<and>
    max_rv_length r = last_assigned (sets_max_rv_length lim) (amenity_codes s) \<and>
    has_toilets r = last_assigned sets_has_toilets (amenity_codes s) \<and>
    toilet_type r = last_assigned sets_toilet_type (amenity_codes s) \<and>
    has_drinking_water r = last_assigned sets_has_drinking_water (amenity_codes s) \<and>
    has_showers r = last_assigned sets_has_showers (amenity_codes s) \<and>
    accepts_reservations r = last_assigned sets_accepts_reservations (amenity_codes s) \<and>
    accepts_pets r = last_assigned sets_accepts_pets (amenity_codes s) \<and>
    low_no_fee r = last_assigned sets_low_no_fee (amenity_codes s)"
proof (intro conjI)
  have "has_water_hookup amenity_dict0 = None" by (simp add: amenity_dict0_def)
  with amenity_step_Inr(1)
  show "has_water_hookup r = last_assigned sets_has_water_hookup (amenity_codes s)"
    using assms by (rule process_campsites_amenities_field)
  have "has_electric_hookup amenity_dict0 = None" by (simp add: amenity_dict0_def)
  with amenity_step_Inr(2)
  show "has_electric_hookup r = last_assigned sets_has_electric_hookup (amenity_codes s)"
    using assms by (rule process_campsites_amenities_field)
  have "has_sewer_hookup amenity_dict0 = None" by (simp add: amenity_dict0_def)
  with amenity_step_Inr(3)
  show "has_sewer_hookup r = last_assigned sets_has_sewer_hookup (amenity_codes s)"
    using assms by (rule process_campsites_amenities_field)
  have "has_rv_hookup amenity_dict0 = None" by (simp add: amenity_dict0_def)
  with amenity_step_Inr(4)
  show "has_rv_hookup r = last_assigned sets_has_rv_hookup (amenity_codes s)"
    using assms by (rule process_campsites_amenities_field)
  have "has_sanitary_dump amenity_dict0 = None" by (simp add: amenity_dict0_def)
  with amenity_step_Inr(5)
  show "has_sanitary_dump r = last_assigned sets_has_sanitary_dump (amenity_codes s)"
    using assms by (rule process_campsites_amenities_field)
  have "max_rv_length amenity_dict0 = None" by (simp add: amenity_dict0_def)
  with amenity_step_Inr(6)
  show "max_rv_length r = last_assigned (sets_max_rv_length lim) (amenity_codes s)"
    using assms by (rule process_campsites_amenities_field)
  have "has_toilets amenity_dict0 = None" by (simp add: amenity_dict0_def)
  with amenity_step_Inr(7)
  show "has_toilets r = last_assigned sets_has_toilets (amenity_codes s)"
    using assms by (rule process_campsites_amenities_field)
  have "toilet_type amenity_dict0 = None" by (simp add: amenity_dict0_def)
  with amenity_step_Inr(8)
  show "toilet_type r = last_assigned sets_toilet_type (amenity_codes s)"
    using assms by (rule process_campsites_amenities_field)
  have "has_drinking_water amenity_dict0 = None" by (simp add: amenity_dict0_def)
  with amenity_step_Inr(9)
  show "has_drinking_water r = last_assigned sets_has_drinking_water (amenity_codes s)"
    using assms by (rule process_campsites_amenities_field)
  have "has_showers amenity_dict0 = None" by (simp add: amenity_dict0_def)
  with amenity_step_Inr(10)
  show "has_showers r = last_assigned sets_has_showers (amenity_codes s)"
    using assms by (rule process_campsites_amenities_field)
  have "accepts_reservations amenity_dict0 = None" by (simp add: amenity_dict0_def)
  with amenity_step_Inr(11)
  show "accepts_reservations r = last_assigned sets_accepts_reservations (amenity_codes s)"
    using assms by (rule process_campsites_amenities_field)
  have "accepts_pets amenity_dict0 = None" by (simp add: amenity_dict0_def)
  with amenity_step_Inr(12)
  show "accepts_pets r = last_assigned sets_accepts_pets (amenity_codes s)"
    using assms by (rule process_campsites_amenities_field)
  have "low_no_fee amenity_dict0 = None" by (simp add: amenity_dict0_def)
  with amenity_step_Inr(13)
  show "low_no_fee r = last_assigned sets_low_no_fee (amenity_codes s)"
    using assms by (rule process_campsites_amenities_field)
qed

theorem amenities_last_code_wins_witness:
  "(\<exists>r. process_campsites_amenities 4300 (Some ''DW NW'') = Inr r \<and>
        has_drinking_water r = Some False) \<and>
   (\<exists>r. process_campsites_amenities 4300 (Some ''NW DW'') = Inr r \<and>
        has_drinking_water r = Some True)"
proof -
  have a: "process_campsites_amenities 4300 (Some ''DW NW'') =
      Inr (amenity_dict0\<lparr>has_drinking_water := Some False\<rparr>)"
    by code_simp
  have a': "last_assigned sets_has_drinking_water (amenity_codes ''DW NW'') = Some False"
    by code_simp
  have b: "process_campsites_amenities 4300 (Some ''NW DW'') =
      Inr (amenity_dict0\<lparr>has_drinking_water := Some True\<rparr>)"
    by code_simp
  have b': "last_assigned sets_has_drinking_water (amenity_codes ''NW DW'') = Some True"
    by code_simp
  from amenities_last_code_wins [OF a] a' amenities_last_code_wins [OF b] b' a b
  show ?thesis by metis
qed

text \<open>
  C3, as the spec states it, fails: the codes of "NP DP" contain \<open>NP\<close>, and the decoder
  returns \<open>has_sanitary_dump\<close> true, because the later \<open>DP\<close> overwrites what \<open>NP\<close> set.
\<close>

theorem NP_overwritten_by_later_DP:
  "process_campsites_amenities 4300 (Some ''NP DP'') =
     Inr (amenity_dict0\<lparr>has_sanitary_dump := Some True, accepts_pets := Some False\<rparr>) \<and>
   amenity_codes ''NP DP'' = [''NP'', ''DP'']"
  by code_simp

text \<open>
  C3, amended: on an input whose codes contain \<open>NP\<close> and on which the decoder returns a
  dictionary, the pass for \<open>NP\<close> sets both \<open>has_sanitary_dump\<close> and \<open>accepts_pets\<close> to
  false (both hold false right after that pass); in the dictionary returned,
  \<open>has_sanitary_dump\<close> is false unless a \<open>DP\<close> follows that \<open>NP\<close>, and \<open>accepts_pets\<close> is
  false unless a \<open>PA\<close> follows it.
\<close>

theorem NP_sets_dump_and_pets:
  assumes "process_campsites_amenities lim (Some s) = Inr r"
    and "amenity_codes s = pre @ ''NP'' # post"
  shows "(\<exists>d. amenities_loop lim (pre @ [''NP'']) amenity_dict0 = Inr d \<and>
            has_sanitary_dump d = Some False \<and> accepts_pets d = Some False) \<and>
         (''DP'' \<notin> set post \<longrightarrow> has_sanitary_dump r = Some False) \<and>
         (''PA'' \<notin> set post \<longrightarrow> accepts_pets r = Some False)"
proof -
  from assms have "amenities_loop lim ((pre @ [''NP'']) @ post) amenity_dict0 = Inr r"
    by (simp add: process_campsites_amenities_def)
  then obtain d where d: "amenities_loop lim (pre @ [''NP'']) amenity_dict0 = Inr d"
    and r: "amenities_loop lim post d = Inr r"
    unfolding amenities_loop_append [of lim "pre @ [''NP'']" post]
    by (cases "amenities_loop lim (pre @ [''NP'']) amenity_dict0") auto
  have "has_sanitary_dump d =
      assign (last_assigned sets_has_sanitary_dump (pre @ [''NP'']))
        (has_sanitary_dump amenity_dict0)"
    using amenity_step_Inr(5) d by (rule amenities_loop_field)
  then have dump: "has_sanitary_dump d = Some False"
    by (simp add: last_assigned_snoc sets_has_sanitary_dump_def assign_def)
  have "accepts_pets d =
      assign (last_assigned sets_accepts_pets (pre @ [''NP''])) (accepts_pets amenity_dict0)"
    using amenity_step_Inr(12) d by (rule amenities_loop_field)
  then have pets: "accepts_pets d = Some False"
    by (simp add: last_assigned_snoc sets_accepts_pets_def assign_def)
  have "has_sanitary_dump r =
      assign (last_assigned sets_has_sanitary_dump post) (has_sanitary_dump d)"
    using amenity_step_Inr(5) r by (rule amenities_loop_field)
  with dump have "''DP'' \<notin> set post \<longrightarrow> has_sanitary_dump r = Some False"
    by (simp add: assign_last_assigned_False [OF sets_has_sanitary_dump_True])
  moreover have "accepts_pets r =
      assign (last_assigned sets_accepts_pets post) (accepts_pets d)"
    using amenity_step_Inr(12) r by (rule amenities_loop_field)
  with pets have "''PA'' \<notin> set post \<longrightarrow> accepts_pets r = Some False"
    by (simp add: assign_last_assigned_False [OF sets_accepts_pets_True])
  ultimately show ?thesis using d dump pets by blast
qed

theorem NP_sets_dump_and_pets_witness:
  "amenity_codes ''WE NP 30ft'' = [''WE''] @ ''NP'' # [''30ft''] \<and>
   (\<exists>r. process_campsites_amenities 4300 (Some ''WE NP 30ft'') = Inr r \<and>
        has_sanitary_dump r = Some False \<and> accepts_pets r = Some False)"
proof -
  have a: "process_campsites_amenities 4300 (Some ''WE NP 30ft'') =
      Inr (amenity_dict0\<lparr>has_electric_hookup := Some True, has_water_hookup := Some True,
             has_sewer_hookup := Some False, has_rv_hookup := Some True,
             has_sanitary_dump := Some False, max_rv_length := Some 30,
             accepts_pets := Some False\<rparr>)"
    by code_simp
  have b: "amenity_codes ''WE NP 30ft'' = [''WE''] @ ''NP'' # [''30ft'']" by code_simp
  have c: "''DP'' \<notin> set [''30ft'']" and e: "''PA'' \<notin> set [''30ft'']" by simp_all
  from NP_sets_dump_and_pets [OF a b] a b c e show ?thesis by blast
qed

text \<open>
  C7, as the spec states it, fails: \<open>int\<close> accepts a sign, and the code \<open>-5ft\<close> gives
  \<open>max_rv_length\<close> the value -5.
\<close>

theorem max_rv_length_negative:
  "process_campsites_amenities 4300 (Some ''-5ft'') =
     Inr (amenity_dict0\<lparr>max_rv_length := Some (- 5)\<rparr>)"
  by code_simp

text \<open>
  C7, amended: whenever the decoder returns a dictionary in which \<open>max_rv_length\<close> is
  present, its value is the integer that \<open>int\<close> reads from the part before \<open>ft\<close> of the
  last code that contains \<open>ft\<close>; it is not negative when that part has no minus sign.
\<close>

theorem max_rv_length_is_parsed_prefix:
  assumes "process_campsites_amenities lim a = Inr r"
    and "max_rv_length r = Some n"
  shows "\<exists>s t. a = Some s \<and>
           filter (py_in ''ft'') (amenity_codes s) \<noteq> [] \<and>
           t = last (filter (py_in ''ft'') (amenity_codes s)) \<and>
           py_int lim (ft_prefix t) = Inr n \<and>
           (CHR ''-'' \<notin> set (ft_prefix t) \<longrightarrow> 0 \<le> n)"
proof (cases a)
  case None
  with assms show ?thesis
    by (auto simp: process_campsites_amenities_def amenity_dict0_def)
next
  case (Some s)
  let ?cs = "amenity_codes s"
  let ?g = "sets_max_rv_length lim"
  from assms(1) Some have run: "process_campsites_amenities lim (Some s) = Inr r" by simp
  then have "\<exists>r. amenities_loop lim ?cs amenity_dict0 = Inr r"
    by (simp add: process_campsites_amenities_def)
  then have ok: "\<forall>c\<in>set ?cs. \<exists>v. new_rv_length lim c = Inr v"
    by (simp add: amenities_loop_Inr_iff)
  have "filter (\<lambda>t. ?g t \<noteq> None) ?cs = filter (py_in ''ft'') ?cs"
  proof (rule filter_cong [OF refl])
    fix c assume "c \<in> set ?cs"
    with ok obtain v where "new_rv_length lim c = Inr v" by blast
    then show "(?g c \<noteq> None) = py_in ''ft'' c" by (rule sets_max_rv_length_ft(1))
  qed
  moreover have "max_rv_length amenity_dict0 = None" by (simp add: amenity_dict0_def)
  with amenity_step_Inr(6) have "max_rv_length r = last_assigned ?g ?cs"
    using run by (rule process_campsites_amenities_field)
  ultimately have ne: "filter (py_in ''ft'') ?cs \<noteq> []"
    and val: "?g (last (filter (py_in ''ft'') ?cs)) = Some n"
    using assms(2) by (auto simp: last_assigned_if split: if_splits)
  let ?t = "last (filter (py_in ''ft'') ?cs)"
  from ne have "?t \<in> set (filter (py_in ''ft'') ?cs)" by (rule last_in_set)
  then have "?t \<in> set ?cs" by simp
  with ok obtain v where "new_rv_length lim ?t = Inr v" by blast
  from sets_max_rv_length_ft(2) [OF this val] have p: "py_int lim (ft_prefix ?t) = Inr n" .
  then have "CHR ''-'' \<notin> set (ft_prefix ?t) \<longrightarrow> 0 \<le> n"
    by (blast intro: py_int_nonneg)
  with Some ne p show ?thesis by blast
qed

theorem max_rv_length_is_parsed_prefix_witness:
  "process_campsites_amenities 4300 (Some ''WE 30ft'') =
     Inr (amenity_dict0\<lparr>has_electric_hookup := Some True, has_water_hookup := Some True,
            has_sewer_hookup := Some False, has_rv_hookup := Some True,
            max_rv_length := Some 30\<rparr>) \<and>
   (\<exists>t. t = last (filter (py_in ''ft'') (amenity_codes ''WE 30ft'')) \<and>
        py_int 4300 (ft_prefix t) = Inr 30)"
proof -
  let ?r = "amenity_dict0\<lparr>has_electric_hookup := Some True, has_water_hookup := Some True,
            has_sewer_hookup := Some False, has_rv_hookup := Some True,
            max_rv_length := Some 30\<rparr>"
  have a: "process_campsites_amenities 4300 (Some ''WE 30ft'') = Inr ?r" by code_simp
  have b: "max_rv_length ?r = Some 30" by simp
  from max_rv_length_is_parsed_prefix [OF a b] a show ?thesis by blast
qed

section \<open>Totality of the decoders\<close>

text \<open>
  C1, as the spec states it, fails: the amenity decoder raises \<open>ValueError\<close> on the code
  \<open>ft\<close>, and on \<open>abcft\<close>, where \<open>int\<close> gets a string that is no integer.
\<close>

theorem amenities_raises_on_malformed_length:
  "process_campsites_amenities 4300 (Some ''ft'') = Inl ValueError \<and>
   process_campsites_amenities 4300 (Some ''DP abcft'') = Inl ValueError"
  by code_simp

text \<open>
  C1, amended: the season decoder returns a dictionary on every input, absent or a
  string; the amenity decoder returns a dictionary on the absent input, and on a string
  exactly when \<open>int\<close> accepts the part before \<open>ft\<close> of every code that contains \<open>ft\<close>;
  otherwise it raises \<open>ValueError\<close>. (The phone normalizer and the country classifier
  call nothing that can raise: they are the total functions
  \<open>process_campsites_phone_number\<close> and \<open>process_campsites_country\<close>.)
\<close>

theorem decoders_return_unless_length_malformed:
  "(\<exists>r. process_campsites_dates x = Inr r) \<and>
   (\<exists>r. process_campsites_amenities lim None = Inr r) \<and>
   ((\<exists>r. process_campsites_amenities lim (Some s) = Inr r) \<longleftrightarrow>
      (\<forall>c\<in>set (amenity_codes s).
         py_in ''ft'' c \<longrightarrow> (\<exists>n. py_int lim (ft_prefix c) = Inr n))) \<and>
   ((\<nexists>r. process_campsites_amenities lim (Some s) = Inr r) \<longrightarrow>
      process_campsites_amenities lim (Some s) = Inl ValueError)"
proof (intro conjI)
  show "\<exists>r. process_campsites_dates x = Inr r" by (rule process_campsites_dates_total)
  show "\<exists>r. process_campsites_amenities lim None = Inr r"
    by (simp add: process_campsites_amenities_def)
  show "(\<exists>r. process_campsites_amenities lim (Some s) = Inr r) \<longleftrightarrow>
      (\<forall>c\<in>set (amenity_codes s).
         py_in ''ft'' c \<longrightarrow> (\<exists>n. py_int lim (ft_prefix c) = Inr n))"
    by (simp add: process_campsites_amenities_def amenities_loop_Inr_iff new_rv_length_Inr_iff)
  show "(\<nexists>r. process_campsites_amenities lim (Some s) = Inr r) \<longrightarrow>
      process_campsites_amenities lim (Some s) = Inl ValueError"
  proof
    assume no: "\<nexists>r. process_campsites_amenities lim (Some s) = Inr r"
    then obtain e where e: "amenities_loop lim (amenity_codes s) amenity_dict0 = Inl e"
      by (cases "amenities_loop lim (amenity_codes s) amenity_dict0")
         (auto simp: process_campsites_amenities_def)
    then obtain c where "new_rv_length lim c = Inl e" by (blast dest: amenities_loop_Inl)
    then have "e = ValueError" by (rule new_rv_length_error)
    with e show "process_campsites_amenities lim (Some s) = Inl ValueError"
      by (simp add: process_campsites_amenities_def)
  qed
qed

theorem decoders_return_unless_length_malformed_witness:
  "(\<exists>r. process_campsites_amenities 4300 (Some ''WES 30ft'') = Inr r) \<and>
   (\<exists>r. process_campsites_dates (Some ''mid may-late sep'') = Inr r)"
proof -
  have a: "amenity_codes ''WES 30ft'' = [''WES'', ''30ft'']" by code_simp
  have b: "\<not> py_in ''ft'' ''WES''" by code_simp
  have c: "py_int 4300 (ft_prefix ''30ft'') = Inr 30" by code_simp
  have h: "\<forall>c\<in>set (amenity_codes ''WES 30ft'').
      py_in ''ft'' c \<longrightarrow> (\<exists>n. py_int 4300 (ft_prefix c) = Inr n)"
    using a b c by simp
  from decoders_return_unless_length_malformed [of "Some ''mid may-late sep''" 4300 "''WES 30ft''"] h
  show ?thesis by blast
qed

end
